theory Spec2Isabelle
  imports Main "HOL-Library.Word"
begin

section \<open>Data key options of the client-side encryption options package\<close>

text \<open>
  The development embeds \<^verbatim>\<open>mongo/options/datakeyoptions.go\<close>: the options
  struct, the builder that accumulates deferred setter functions, the factory, the
  accessor and the three setters.

  Go values are represented as follows.
  \<^item> A slice is \<open>None\<close> when it is the nil slice and \<open>Some xs\<close> when it is a
    non-nil slice with the elements \<open>xs\<close>; the package never writes through a
    slice element, so a slice is represented by its elements.
  \<^item> A value of the empty interface is \<open>None\<close> when it is nil and \<open>Some v\<close>
    otherwise; the type \<open>'v\<close> of wrapped values is left open.
  \<^item> A \<^verbatim>\<open>*DataKeyOptionsBuilder\<close> is a pointer into a heap of builders, so that
    the identity of a builder and the in-place update of its field are visible.
  \<^item> A \<^verbatim>\<open>func(*DataKeyOptions) error\<close> takes the record it points to and gives
    back the record as it left it, with the error it returned (\<open>None\<close> for nil).
\<close>

subsection \<open>Slices, interface values, errors\<close>

type_synonym 'a slice = "'a list option"

type_synonym byte = "8 word"

type_synonym 'v iface = "'v option"

datatype error = Error string

datatype panic = NilPointerDereference

text \<open>The elements of a slice; the nil slice has none (\<^verbatim>\<open>len(nil) == 0\<close>).\<close>

definition elems :: "'a slice \<Rightarrow> 'a list" where
  "elems s = (case s of None \<Rightarrow> [] | Some xs \<Rightarrow> xs)"

text \<open>
  The builtin \<^verbatim>\<open>append(s, x)\<close> with one element: the result is never nil and holds
  the elements of \<open>s\<close> followed by \<open>x\<close>.
\<close>

definition append_slice :: "'a slice \<Rightarrow> 'a \<Rightarrow> 'a slice" where
  "append_slice s x = Some (elems s @ [x])"

subsection \<open>The options struct and the builder\<close>

record 'v DataKeyOptions =
  MasterKey :: "'v iface"
  KeyAltNames :: "string slice"
  KeyMaterial :: "byte slice"

type_synonym 'v setter_func = "'v DataKeyOptions \<Rightarrow> 'v DataKeyOptions \<times> error option"

record 'v DataKeyOptionsBuilder =
  Opts :: "'v setter_func slice"

text \<open>The zero value of the struct: every field is nil.\<close>

definition zero_DataKeyOptions :: "'v DataKeyOptions" where
  "zero_DataKeyOptions = \<lparr>MasterKey = None, KeyAltNames = None, KeyMaterial = None\<rparr>"

subsection \<open>Pointers to builders\<close>

datatype pointer = Nil_pointer | Address nat

type_synonym 'v heap = "'v DataKeyOptionsBuilder list"

text \<open>
  Reading through a pointer panics on the nil pointer. An address beyond the heap is
  not a pointer a Go program can hold; it is given the same outcome.
\<close>

definition load :: "'v heap \<Rightarrow> pointer \<Rightarrow> panic + 'v DataKeyOptionsBuilder" where
  "load h p =
     (case p of
        Nil_pointer \<Rightarrow> Inl NilPointerDereference
      | Address a \<Rightarrow> if a < length h then Inr (h ! a) else Inl NilPointerDereference)"

definition store :: "'v heap \<Rightarrow> pointer \<Rightarrow> 'v DataKeyOptionsBuilder \<Rightarrow> 'v heap" where
  "store h p b = (case p of Nil_pointer \<Rightarrow> h | Address a \<Rightarrow> h[a := b])"

subsection \<open>The factory and the accessor\<close>

text \<open>\<^verbatim>\<open>DataKey()\<close> allocates a builder whose \<^verbatim>\<open>Opts\<close> is the nil slice.\<close>

definition DataKey :: "'v heap \<Rightarrow> pointer \<times> 'v heap" where
  "DataKey h = (Address (length h), h @ [\<lparr>Opts = None\<rparr>])"

text \<open>\<^verbatim>\<open>dk.List()\<close> returns \<^verbatim>\<open>dk.Opts\<close>; the heap is handed back as it was.\<close>

definition List :: "pointer \<Rightarrow> 'v heap \<Rightarrow> panic + ('v setter_func slice \<times> 'v heap)" where
  "List dk h = (case load h dk of Inl p \<Rightarrow> Inl p | Inr b \<Rightarrow> Inr (Opts b, h))"

subsection \<open>The setters\<close>

text \<open>
  Each setter builds a function literal that captures the setter's parameter, appends it
  to \<^verbatim>\<open>dk.Opts\<close>, stores the new slice in the builder and returns \<^verbatim>\<open>dk\<close>.
  The function literals are named after their setter.
\<close>

definition SetMasterKey_func :: "'v iface \<Rightarrow> 'v setter_func" where
  "SetMasterKey_func masterKey = (\<lambda>opts. (opts\<lparr>MasterKey := masterKey\<rparr>, None))"

definition SetKeyAltNames_func :: "string slice \<Rightarrow> 'v setter_func" where
  "SetKeyAltNames_func keyAltNames = (\<lambda>opts. (opts\<lparr>KeyAltNames := keyAltNames\<rparr>, None))"

definition SetKeyMaterial_func :: "byte slice \<Rightarrow> 'v setter_func" where
  "SetKeyMaterial_func keyMaterial = (\<lambda>opts. (opts\<lparr>KeyMaterial := keyMaterial\<rparr>, None))"

definition SetMasterKey ::
  "'v iface \<Rightarrow> pointer \<Rightarrow> 'v heap \<Rightarrow> panic + (pointer \<times> 'v heap)" where
  "SetMasterKey masterKey dk h =
     (case load h dk of
        Inl p \<Rightarrow> Inl p
      | Inr b \<Rightarrow>
          Inr (dk, store h dk (b\<lparr>Opts := append_slice (Opts b) (SetMasterKey_func masterKey)\<rparr>)))"

definition SetKeyAltNames ::
  "string slice \<Rightarrow> pointer \<Rightarrow> 'v heap \<Rightarrow> panic + (pointer \<times> 'v heap)" where
  "SetKeyAltNames keyAltNames dk h =
     (case load h dk of
        Inl p \<Rightarrow> Inl p
      | Inr b \<Rightarrow>
          Inr (dk, store h dk (b\<lparr>Opts := append_slice (Opts b) (SetKeyAltNames_func keyAltNames)\<rparr>)))"

definition SetKeyMaterial ::
  "byte slice \<Rightarrow> pointer \<Rightarrow> 'v heap \<Rightarrow> panic + (pointer \<times> 'v heap)" where
  "SetKeyMaterial keyMaterial dk h =
     (case load h dk of
        Inl p \<Rightarrow> Inl p
      | Inr b \<Rightarrow>
          Inr (dk, store h dk (b\<lparr>Opts := append_slice (Opts b) (SetKeyMaterial_func keyMaterial)\<rparr>)))"

subsection \<open>Sequences of setter calls\<close>

text \<open>
  A setter call is one of the three setters with its argument. A chain
  \<^verbatim>\<open>dk.S1(x1).S2(x2)...\<close> calls each setter on the pointer the previous call
  returned, and stops at the first panic.
\<close>

datatype 'v call =
    CallSetMasterKey "'v iface"
  | CallSetKeyAltNames "string slice"
  | CallSetKeyMaterial "byte slice"

fun call_setter :: "'v call \<Rightarrow> pointer \<Rightarrow> 'v heap \<Rightarrow> panic + (pointer \<times> 'v heap)" where
  "call_setter (CallSetMasterKey masterKey) dk h = SetMasterKey masterKey dk h"
| "call_setter (CallSetKeyAltNames keyAltNames) dk h = SetKeyAltNames keyAltNames dk h"
| "call_setter (CallSetKeyMaterial keyMaterial) dk h = SetKeyMaterial keyMaterial dk h"

fun chain :: "'v call list \<Rightarrow> pointer \<Rightarrow> 'v heap \<Rightarrow> panic + (pointer \<times> 'v heap)" where
  "chain [] dk h = Inr (dk, h)"
| "chain (c # cs) dk h =
     (case call_setter c dk h of Inl p \<Rightarrow> Inl p | Inr (dk', h') \<Rightarrow> chain cs dk' h')"

text \<open>The function literal a setter call appends.\<close>

fun deferred :: "'v call \<Rightarrow> 'v setter_func" where
  "deferred (CallSetMasterKey masterKey) = SetMasterKey_func masterKey"
| "deferred (CallSetKeyAltNames keyAltNames) = SetKeyAltNames_func keyAltNames"
| "deferred (CallSetKeyMaterial keyMaterial) = SetKeyMaterial_func keyMaterial"

text \<open>The arguments passed to each setter in a sequence of calls, in call order.\<close>

fun args_MasterKey :: "'v call list \<Rightarrow> 'v iface list" where
  "args_MasterKey [] = []"
| "args_MasterKey (CallSetMasterKey masterKey # cs) = masterKey # args_MasterKey cs"
| "args_MasterKey (_ # cs) = args_MasterKey cs"

fun args_KeyAltNames :: "'v call list \<Rightarrow> string slice list" where
  "args_KeyAltNames [] = []"
| "args_KeyAltNames (CallSetKeyAltNames keyAltNames # cs) = keyAltNames # args_KeyAltNames cs"
| "args_KeyAltNames (_ # cs) = args_KeyAltNames cs"

fun args_KeyMaterial :: "'v call list \<Rightarrow> byte slice list" where
  "args_KeyMaterial [] = []"
| "args_KeyMaterial (CallSetKeyMaterial keyMaterial # cs) = keyMaterial # args_KeyMaterial cs"
| "args_KeyMaterial (_ # cs) = args_KeyMaterial cs"

subsection \<open>Applying the deferred functions\<close>

text \<open>Modelled from the spec: the key-creation operation that consumes a builder is outside
  \<^verbatim>\<open>datakeyoptions.go\<close>. The spec describes it: it applies all deferred mutations
  in order to a fresh options value; a mutation may fail, in which case application
  halts at that point and the partial result is not used.
\<close>

fun apply_deferred :: "'v setter_func list \<Rightarrow> 'v DataKeyOptions \<Rightarrow> error + 'v DataKeyOptions" where
  "apply_deferred [] opts = Inr opts"
| "apply_deferred (f # fs) opts =
     (case f opts of
        (opts', Some e) \<Rightarrow> Inl e
      | (opts', None) \<Rightarrow> apply_deferred fs opts')"

text \<open>Modelled from the spec: the consumer reads \<^verbatim>\<open>List()\<close> and applies the sequence it
  gets to a fresh, zero-valued options record.
\<close>

definition materialize ::
  "pointer \<Rightarrow> 'v heap \<Rightarrow> panic + ((error + 'v DataKeyOptions) \<times> 'v heap)" where
  "materialize dk h =
     (case List dk h of
        Inl p \<Rightarrow> Inl p
      | Inr (s, h') \<Rightarrow> Inr (apply_deferred (elems s) zero_DataKeyOptions, h'))"

text \<open>Modelled from the spec: the consumer run \<open>n\<close> times in a row on the same builder,
  each run on a fresh record; the results are collected in order.
\<close>

fun materialize_times ::
  "nat \<Rightarrow> pointer \<Rightarrow> 'v heap \<Rightarrow> panic + ((error + 'v DataKeyOptions) list \<times> 'v heap)" where
  "materialize_times 0 dk h = Inr ([], h)"
| "materialize_times (Suc n) dk h =
     (case materialize dk h of
        Inl p \<Rightarrow> Inl p
      | Inr (r, h') \<Rightarrow>
          (case materialize_times n dk h' of
             Inl p \<Rightarrow> Inl p
           | Inr (rs, h'') \<Rightarrow> Inr (r # rs, h'')))"

text \<open>Modelled from the spec: the control flow of the overview. The caller obtains a
  builder, chains zero or more setter calls, then passes the builder to the key-creation
  operation, which applies the deferred mutations to a fresh options value and uses the
  result.\<close>

definition configure :: "'v call list \<Rightarrow> 'v heap \<Rightarrow> panic + (error + 'v DataKeyOptions)" where
  "configure cs h =
     (case DataKey h of
        (dk, h0) \<Rightarrow>
          (case chain cs dk h0 of
             Inl p \<Rightarrow> Inl p
           | Inr (dk', h1) \<Rightarrow>
               (case materialize dk' h1 of Inl p \<Rightarrow> Inl p | Inr (r, h2) \<Rightarrow> Inr r)))"

section \<open>Basic facts\<close>

lemma elems_simps: "elems None = []" "elems (Some xs) = xs"
  by (simp_all add: elems_def)

lemma load_Address: "a < length h \<Longrightarrow> load h (Address a) = Inr (h ! a)"
  by (simp add: load_def)

lemma load_InrD: "load h dk = Inr b \<Longrightarrow> \<exists>a. dk = Address a \<and> a < length h \<and> b = h ! a"
  by (auto simp: load_def split: pointer.splits if_splits)

lemma load_store: "load h dk = Inr b \<Longrightarrow> load (store h dk b') dk = Inr b'"
  by (auto simp: load_def store_def split: pointer.splits if_splits)

lemma load_DataKey: "load (snd (DataKey h)) (fst (DataKey h)) = Inr \<lparr>Opts = None\<rparr>"
  by (simp add: DataKey_def load_def)

lemma store_length: "length (store h dk b) = length h"
  by (simp add: store_def split: pointer.splits)

lemma List_load: "load h dk = Inr b \<Longrightarrow> List dk h = Inr (Opts b, h)"
  by (simp add: List_def)

lemma materialize_times_stable:
  "materialize dk h = Inr (r, h) \<Longrightarrow> materialize_times n dk h = Inr (replicate n r, h)"
  by (induction n) simp_all

section \<open>What a setter call does to the builder\<close>

lemma call_setter_effect:
  "load h dk = Inr b \<Longrightarrow>
   call_setter c dk h = Inr (dk, store h dk (b\<lparr>Opts := append_slice (Opts b) (deferred c)\<rparr>))"
  by (cases c) (simp_all add: SetMasterKey_def SetKeyAltNames_def SetKeyMaterial_def)

lemma setter_appends:
  assumes "load h dk = Inr b"
  shows "\<exists>h' b'. call_setter c dk h = Inr (dk, h') \<and> load h' dk = Inr b' \<and>
           elems (Opts b') = elems (Opts b) @ [deferred c]"
proof -
  let ?b' = "b\<lparr>Opts := append_slice (Opts b) (deferred c)\<rparr>"
  have "call_setter c dk h = Inr (dk, store h dk ?b')"
    using assms by (rule call_setter_effect)
  moreover have "load (store h dk ?b') dk = Inr ?b'"
    using assms by (rule load_store)
  moreover have "elems (Opts ?b') = elems (Opts b) @ [deferred c]"
    by (simp add: append_slice_def elems_simps)
  ultimately show ?thesis by blast
qed

lemma chain_effect:
  "load h dk = Inr b \<Longrightarrow>
   \<exists>h'. chain cs dk h = Inr (dk, h') \<and>
        load h' dk = Inr (b\<lparr>Opts := (if cs = [] then Opts b
                                      else Some (elems (Opts b) @ map deferred cs))\<rparr>)"
proof (induction cs arbitrary: h b)
  case Nil
  then show ?case by simp
next
  case (Cons c cs)
  let ?b1 = "b\<lparr>Opts := append_slice (Opts b) (deferred c)\<rparr>"
  let ?h1 = "store h dk ?b1"
  have step: "call_setter c dk h = Inr (dk, ?h1)"
    using Cons.prems by (rule call_setter_effect)
  have ld: "load ?h1 dk = Inr ?b1"
    using Cons.prems by (rule load_store)
  from Cons.IH [OF ld] obtain h' where
    run: "chain cs dk ?h1 = Inr (dk, h')" and
    res: "load h' dk = Inr (?b1\<lparr>Opts := (if cs = [] then Opts ?b1
                                      else Some (elems (Opts ?b1) @ map deferred cs))\<rparr>)"
    by blast
  have "chain (c # cs) dk h = Inr (dk, h')"
    using step run by simp
  moreover have "load h' dk = Inr (b\<lparr>Opts := Some (elems (Opts b) @ map deferred (c # cs))\<rparr>)"
    using res by (simp add: append_slice_def elems_simps)
  ultimately show ?case by auto
qed

lemma List_fresh_chain:
  "\<exists>h1. chain cs (fst (DataKey h)) (snd (DataKey h)) = Inr (fst (DataKey h), h1) \<and>
        List (fst (DataKey h)) h1 = Inr (if cs = [] then None else Some (map deferred cs), h1)"
proof -
  from chain_effect [OF load_DataKey, of cs h] obtain h1 where
    "chain cs (fst (DataKey h)) (snd (DataKey h)) = Inr (fst (DataKey h), h1)"
    "load h1 (fst (DataKey h)) =
       Inr (\<lparr>Opts = None\<rparr>\<lparr>Opts := (if cs = [] then Opts \<lparr>Opts = None\<rparr>
                                      else Some (elems (Opts \<lparr>Opts = None\<rparr>) @ map deferred cs))\<rparr>)"
    by blast
  then show ?thesis
    by (auto simp: List_def elems_simps)
qed

lemma chain_returns:
  assumes "chain cs (fst (DataKey h)) (snd (DataKey h)) = Inr (dk, h1)"
  shows "dk = fst (DataKey h) \<and> load h1 dk = Inr \<lparr>Opts = (if cs = [] then None else Some (map deferred cs))\<rparr>"
proof -
  from chain_effect [OF load_DataKey, of cs h] obtain h' where
    "chain cs (fst (DataKey h)) (snd (DataKey h)) = Inr (fst (DataKey h), h')"
    "load h' (fst (DataKey h)) =
       Inr (\<lparr>Opts = None\<rparr>\<lparr>Opts := (if cs = [] then Opts \<lparr>Opts = None\<rparr>
                                      else Some (elems (Opts \<lparr>Opts = None\<rparr>) @ map deferred cs))\<rparr>)"
    by blast
  with assms show ?thesis
    by (auto simp: elems_simps)
qed

section \<open>What the appended functions do to an options record\<close>

lemma apply_deferred_calls:
  "apply_deferred (map deferred cs) opts =
     Inr \<lparr>MasterKey = (if args_MasterKey cs = [] then MasterKey opts else last (args_MasterKey cs)),
          KeyAltNames = (if args_KeyAltNames cs = [] then KeyAltNames opts else last (args_KeyAltNames cs)),
          KeyMaterial = (if args_KeyMaterial cs = [] then KeyMaterial opts else last (args_KeyMaterial cs))\<rparr>"
proof (induction cs arbitrary: opts)
  case Nil
  then show ?case by simp
next
  case (Cons c cs)
  then show ?case
    by (cases c) (simp_all add: SetMasterKey_func_def SetKeyAltNames_func_def SetKeyMaterial_func_def)
qed

lemma args_KeyAltNames_snoc:
  "args_KeyAltNames (cs @ [CallSetKeyAltNames x]) = args_KeyAltNames cs @ [x]"
  by (induction cs rule: args_KeyAltNames.induct) simp_all

lemma args_KeyMaterial_snoc:
  "args_KeyMaterial (cs @ [CallSetKeyMaterial x]) = args_KeyMaterial cs @ [x]"
  by (induction cs rule: args_KeyMaterial.induct) simp_all

lemma configure_calls:
  "configure cs h =
     Inr (Inr \<lparr>MasterKey = (if args_MasterKey cs = [] then None else last (args_MasterKey cs)),
          KeyAltNames = (if args_KeyAltNames cs = [] then None else last (args_KeyAltNames cs)),
          KeyMaterial = (if args_KeyMaterial cs = [] then None else last (args_KeyMaterial cs))\<rparr>)"
proof -
  obtain h1 where
    run: "chain cs (fst (DataKey h)) (snd (DataKey h)) = Inr (fst (DataKey h), h1)" and
    lst: "List (fst (DataKey h)) h1 = Inr (if cs = [] then None else Some (map deferred cs), h1)"
    using List_fresh_chain by blast
  have el: "elems (if cs = [] then None else Some (map deferred cs)) = map deferred cs"
    by (simp add: elems_simps)
  have "materialize (fst (DataKey h)) h1 =
          Inr (apply_deferred (map deferred cs) zero_DataKeyOptions, h1)"
    unfolding materialize_def lst using el by simp
  then show ?thesis
    using run unfolding apply_deferred_calls
    by (simp add: configure_def split_beta zero_DataKeyOptions_def)
qed

section \<open>The properties of the specification\<close>

text \<open>
  C1. For every sequence of setter calls chained on a builder obtained from
  \<^verbatim>\<open>DataKey()\<close>, the chain returns, \<^verbatim>\<open>List()\<close> returns, and applying the
  returned functions in order to the zero-valued options record succeeds with a record in
  which every field that has a setter call holds the last value passed to that setter.
\<close>

theorem last_writer_wins:
  "\<exists>h1 s r.
     chain cs (fst (DataKey h)) (snd (DataKey h)) = Inr (fst (DataKey h), h1) \<and>
     List (fst (DataKey h)) h1 = Inr (s, h1) \<and>
     apply_deferred (elems s) zero_DataKeyOptions = Inr r \<and>
     (args_MasterKey cs \<noteq> [] \<longrightarrow> MasterKey r = last (args_MasterKey cs)) \<and>
     (args_KeyAltNames cs \<noteq> [] \<longrightarrow> KeyAltNames r = last (args_KeyAltNames cs)) \<and>
     (args_KeyMaterial cs \<noteq> [] \<longrightarrow> KeyMaterial r = last (args_KeyMaterial cs))"
proof -
  obtain h1 where
    run: "chain cs (fst (DataKey h)) (snd (DataKey h)) = Inr (fst (DataKey h), h1)" and
    lst: "List (fst (DataKey h)) h1 = Inr (if cs = [] then None else Some (map deferred cs), h1)"
    using List_fresh_chain by blast
  let ?s = "if cs = [] then None else Some (map deferred cs)"
  let ?r = "\<lparr>MasterKey = (if args_MasterKey cs = [] then None else last (args_MasterKey cs)),
          KeyAltNames = (if args_KeyAltNames cs = [] then None else last (args_KeyAltNames cs)),
          KeyMaterial = (if args_KeyMaterial cs = [] then None else last (args_KeyMaterial cs))\<rparr>"
  have el: "elems ?s = map deferred cs"
    by (simp add: elems_simps)
  have ap: "apply_deferred (elems ?s) zero_DataKeyOptions = Inr ?r"
    unfolding el apply_deferred_calls by (simp add: zero_DataKeyOptions_def)
  have "(args_MasterKey cs \<noteq> [] \<longrightarrow> MasterKey ?r = last (args_MasterKey cs)) \<and>
     (args_KeyAltNames cs \<noteq> [] \<longrightarrow> KeyAltNames ?r = last (args_KeyAltNames cs)) \<and>
     (args_KeyMaterial cs \<noteq> [] \<longrightarrow> KeyMaterial ?r = last (args_KeyMaterial cs))"
    by simp
  with run lst ap show ?thesis
    by blast
qed

text \<open>The example of the specification: \<^verbatim>\<open>SetMasterKey(A)\<close>, then
  \<^verbatim>\<open>SetMasterKey(B)\<close>, then apply, gives \<^verbatim>\<open>MasterKey == B\<close>.\<close>

theorem last_writer_wins_witness:
  "\<exists>h1 s r.
     chain [CallSetMasterKey (Some ''A''), CallSetMasterKey (Some ''B'')]
       (fst (DataKey ([] :: string heap))) (snd (DataKey ([] :: string heap)))
       = Inr (fst (DataKey ([] :: string heap)), h1) \<and>
     List (fst (DataKey ([] :: string heap))) h1 = Inr (s, h1) \<and>
     apply_deferred (elems s) zero_DataKeyOptions = Inr r \<and>
     MasterKey r = Some ''B''"
  using last_writer_wins [of "[CallSetMasterKey (Some ''A''), CallSetMasterKey (Some ''B'')]" "[] :: string heap"]
  by simp


text \<open>
  C2. For every sequence of setter calls chained on a builder obtained from
  \<^verbatim>\<open>DataKey()\<close>, \<^verbatim>\<open>List()\<close> returns exactly the functions the calls appended,
  in call order, as many as there were calls; it hands the heap back unchanged, and a
  second call on the heap it handed back returns the same slice and the same heap.
\<close>

theorem list_reflects_calls:
  "\<exists>h1 s.
     chain cs (fst (DataKey h)) (snd (DataKey h)) = Inr (fst (DataKey h), h1) \<and>
     List (fst (DataKey h)) h1 = Inr (s, h1) \<and>
     elems s = map deferred cs \<and>
     length (elems s) = length cs \<and>
     (case List (fst (DataKey h)) h1 of
        Inl p \<Rightarrow> Inl p
      | Inr (s', h2) \<Rightarrow> List (fst (DataKey h)) h2) = Inr (s, h1)"
proof -
  obtain h1 where
    run: "chain cs (fst (DataKey h)) (snd (DataKey h)) = Inr (fst (DataKey h), h1)" and
    lst: "List (fst (DataKey h)) h1 = Inr (if cs = [] then None else Some (map deferred cs), h1)"
    using List_fresh_chain by blast
  let ?s = "if cs = [] then None else Some (map deferred cs)"
  have el: "elems ?s = map deferred cs"
    by (simp add: elems_simps)
  then have len: "length (elems ?s) = length cs"
    by simp
  have again: "(case List (fst (DataKey h)) h1 of
        Inl p \<Rightarrow> Inl p
      | Inr (s', h2) \<Rightarrow> List (fst (DataKey h)) h2) = Inr (?s, h1)"
    by (simp add: lst)
  from run lst el len again show ?thesis
    by blast
qed

text \<open>
  C3. On every builder, each of the three setters returns and leaves the builder with
  the earlier functions followed by one new function, and that new function returns the
  nil error on every options record.
\<close>

theorem setter_funcs_return_nil:
  assumes "load h dk = Inr b"
  shows "(\<exists>h' b'. SetMasterKey masterKey dk h = Inr (dk, h') \<and> load h' dk = Inr b' \<and>
            butlast (elems (Opts b')) = elems (Opts b) \<and>
            elems (Opts b') \<noteq> [] \<and>
            snd (last (elems (Opts b')) opts) = None) \<and>
         (\<exists>h' b'. SetKeyAltNames keyAltNames dk h = Inr (dk, h') \<and> load h' dk = Inr b' \<and>
            butlast (elems (Opts b')) = elems (Opts b) \<and>
            elems (Opts b') \<noteq> [] \<and>
            snd (last (elems (Opts b')) opts) = None) \<and>
         (\<exists>h' b'. SetKeyMaterial keyMaterial dk h = Inr (dk, h') \<and> load h' dk = Inr b' \<and>
            butlast (elems (Opts b')) = elems (Opts b) \<and>
            elems (Opts b') \<noteq> [] \<and>
            snd (last (elems (Opts b')) opts) = None)"
proof (intro conjI)
  from setter_appends [OF assms, of "CallSetMasterKey masterKey"]
  show "\<exists>h' b'. SetMasterKey masterKey dk h = Inr (dk, h') \<and> load h' dk = Inr b' \<and>
            butlast (elems (Opts b')) = elems (Opts b) \<and>
            elems (Opts b') \<noteq> [] \<and>
            snd (last (elems (Opts b')) opts) = None"
    by (auto simp: SetMasterKey_func_def)
next
  from setter_appends [OF assms, of "CallSetKeyAltNames keyAltNames"]
  show "\<exists>h' b'. SetKeyAltNames keyAltNames dk h = Inr (dk, h') \<and> load h' dk = Inr b' \<and>
            butlast (elems (Opts b')) = elems (Opts b) \<and>
            elems (Opts b') \<noteq> [] \<and>
            snd (last (elems (Opts b')) opts) = None"
    by (auto simp: SetKeyAltNames_func_def)
next
  from setter_appends [OF assms, of "CallSetKeyMaterial keyMaterial"]
  show "\<exists>h' b'. SetKeyMaterial keyMaterial dk h = Inr (dk, h') \<and> load h' dk = Inr b' \<and>
            butlast (elems (Opts b')) = elems (Opts b) \<and>
            elems (Opts b') \<noteq> [] \<and>
            snd (last (elems (Opts b')) opts) = None"
    by (auto simp: SetKeyMaterial_func_def)
qed

theorem setter_funcs_return_nil_witness:
  "load [\<lparr>Opts = None\<rparr>] (Address 0) = Inr (\<lparr>Opts = None\<rparr> :: string DataKeyOptionsBuilder) \<and>
   (\<exists>h' b'. SetMasterKey (Some ''arn'') (Address 0) [\<lparr>Opts = None\<rparr>] = Inr (Address 0, h') \<and>
      load h' (Address 0) = Inr b' \<and>
      snd (last (elems (Opts b')) zero_DataKeyOptions) = None) \<and>
   (\<exists>h' b'. SetKeyAltNames (Some [''a'']) (Address 0) [\<lparr>Opts = None\<rparr>] = Inr (Address 0, h') \<and>
      load h' (Address 0) = Inr (b' :: string DataKeyOptionsBuilder) \<and>
      snd (last (elems (Opts b')) zero_DataKeyOptions) = None) \<and>
   (\<exists>h' b'. SetKeyMaterial (Some [1, 2]) (Address 0) [\<lparr>Opts = None\<rparr>] = Inr (Address 0, h') \<and>
      load h' (Address 0) = Inr (b' :: string DataKeyOptionsBuilder) \<and>
      snd (last (elems (Opts b')) zero_DataKeyOptions) = None)"
proof -
  have h: "load [\<lparr>Opts = None\<rparr>] (Address 0) = Inr (\<lparr>Opts = None\<rparr> :: string DataKeyOptionsBuilder)"
    by (simp add: load_def)
  from setter_funcs_return_nil [OF h, where masterKey = "Some ''arn''"
      and keyAltNames = "Some [''a'']" and keyMaterial = "Some [1, 2]"
      and opts = zero_DataKeyOptions]
  show ?thesis
    using h by blast
qed

text \<open>
  C4. The builder that \<^verbatim>\<open>DataKey()\<close> creates has no deferred functions:
  \<^verbatim>\<open>List()\<close> returns a slice without elements, and applying it to the zero-valued
  options record succeeds with \<^verbatim>\<open>MasterKey\<close>, \<^verbatim>\<open>KeyAltNames\<close> and
  \<^verbatim>\<open>KeyMaterial\<close> all nil.
\<close>

theorem fresh_builder_empty:
  "\<exists>s. List (fst (DataKey h)) (snd (DataKey h)) = Inr (s, snd (DataKey h)) \<and>
       elems s = [] \<and>
       (\<exists>r. apply_deferred (elems s) zero_DataKeyOptions = Inr r \<and>
            MasterKey r = None \<and> KeyAltNames r = None \<and> KeyMaterial r = None)"
proof (intro exI conjI)
  show "List (fst (DataKey h)) (snd (DataKey h)) = Inr (None, snd (DataKey h))"
    using List_load [OF load_DataKey, of h] by simp
  show "elems None = []"
    by (simp add: elems_simps)
  show "apply_deferred (elems None) zero_DataKeyOptions = Inr zero_DataKeyOptions"
    by (simp add: elems_simps)
  show "MasterKey zero_DataKeyOptions = None"
    by (simp add: zero_DataKeyOptions_def)
  show "KeyAltNames zero_DataKeyOptions = None"
    by (simp add: zero_DataKeyOptions_def)
  show "KeyMaterial zero_DataKeyOptions = None"
    by (simp add: zero_DataKeyOptions_def)
qed

text \<open>
  C5. On a builder obtained from \<^verbatim>\<open>DataKey()\<close>, after any chain of setter calls,
  \<^verbatim>\<open>SetKeyAltNames(names)\<close> returns, and applying what \<^verbatim>\<open>List()\<close> then
  returns to the zero-valued options record succeeds with \<^verbatim>\<open>KeyAltNames\<close> equal
  to \<open>names\<close>: the same slice, nil or not, with the same elements in the same order.
\<close>

theorem keyAltNames_as_given:
  assumes "chain cs (fst (DataKey h)) (snd (DataKey h)) = Inr (dk, h1)"
  shows "\<exists>h2 s r. SetKeyAltNames names dk h1 = Inr (dk, h2) \<and>
           List dk h2 = Inr (s, h2) \<and>
           apply_deferred (elems s) zero_DataKeyOptions = Inr r \<and>
           KeyAltNames r = names"
proof -
  let ?b = "\<lparr>Opts = (if cs = [] then None else Some (map deferred cs))\<rparr>"
  have ld: "load h1 dk = Inr ?b"
    using chain_returns [OF assms] by blast
  have el: "elems (Opts ?b) = map deferred cs"
    by (simp add: elems_simps)
  from setter_appends [OF ld, of "CallSetKeyAltNames names"] obtain h2 b' where
    set: "SetKeyAltNames names dk h1 = Inr (dk, h2)" and
    ld2: "load h2 dk = Inr b'" and
    ops: "elems (Opts b') = map deferred (cs @ [CallSetKeyAltNames names])"
    unfolding el by auto
  have lst: "List dk h2 = Inr (Opts b', h2)"
    using ld2 by (rule List_load)
  let ?r = "\<lparr>MasterKey = (if args_MasterKey (cs @ [CallSetKeyAltNames names]) = [] then None
                            else last (args_MasterKey (cs @ [CallSetKeyAltNames names]))),
             KeyAltNames = names,
             KeyMaterial = (if args_KeyMaterial (cs @ [CallSetKeyAltNames names]) = [] then None
                            else last (args_KeyMaterial (cs @ [CallSetKeyAltNames names])))\<rparr>"
  have ap: "apply_deferred (elems (Opts b')) zero_DataKeyOptions = Inr ?r"
    unfolding ops apply_deferred_calls args_KeyAltNames_snoc
    by (simp add: zero_DataKeyOptions_def)
  have "KeyAltNames ?r = names"
    by simp
  with set lst ap show ?thesis
    by blast
qed

theorem keyAltNames_as_given_witness:
  "chain [] (fst (DataKey [])) (snd (DataKey []))
     = Inr (Address 0, [\<lparr>Opts = None\<rparr> :: string DataKeyOptionsBuilder]) \<and>
   (\<exists>h2 s r.
      SetKeyAltNames (Some [''a'', ''b'']) (Address 0) [\<lparr>Opts = None\<rparr>] = Inr (Address 0, h2) \<and>
      List (Address 0) h2 = Inr (s, h2) \<and>
      apply_deferred (elems s) zero_DataKeyOptions = Inr (r :: string DataKeyOptions) \<and>
      KeyAltNames r = Some [''a'', ''b''])"
proof -
  have h: "chain [] (fst (DataKey [])) (snd (DataKey []))
     = Inr (Address 0, [\<lparr>Opts = None\<rparr> :: string DataKeyOptionsBuilder])"
    by (simp add: DataKey_def)
  from keyAltNames_as_given [OF h, of "Some [''a'', ''b'']"]
  show ?thesis
    using h by blast
qed

text \<open>
  C6. On a builder obtained from \<^verbatim>\<open>DataKey()\<close>, after any chain of setter calls,
  \<^verbatim>\<open>SetKeyMaterial(bytes)\<close> returns for every byte slice, the nil slice and the
  slice of length zero included, and applying what \<^verbatim>\<open>List()\<close> then returns to the
  zero-valued options record succeeds with \<^verbatim>\<open>KeyMaterial\<close> equal to \<open>bytes\<close>.
\<close>

theorem keyMaterial_as_given:
  assumes "chain cs (fst (DataKey h)) (snd (DataKey h)) = Inr (dk, h1)"
  shows "\<exists>h2 s r. SetKeyMaterial bytes dk h1 = Inr (dk, h2) \<and>
           List dk h2 = Inr (s, h2) \<and>
           apply_deferred (elems s) zero_DataKeyOptions = Inr r \<and>
           KeyMaterial r = bytes"
proof -
  let ?b = "\<lparr>Opts = (if cs = [] then None else Some (map deferred cs))\<rparr>"
  have ld: "load h1 dk = Inr ?b"
    using chain_returns [OF assms] by blast
  have el: "elems (Opts ?b) = map deferred cs"
    by (simp add: elems_simps)
  from setter_appends [OF ld, of "CallSetKeyMaterial bytes"] obtain h2 b' where
    set: "SetKeyMaterial bytes dk h1 = Inr (dk, h2)" and
    ld2: "load h2 dk = Inr b'" and
    ops: "elems (Opts b') = map deferred (cs @ [CallSetKeyMaterial bytes])"
    unfolding el by auto
  have lst: "List dk h2 = Inr (Opts b', h2)"
    using ld2 by (rule List_load)
  let ?r = "\<lparr>MasterKey = (if args_MasterKey (cs @ [CallSetKeyMaterial bytes]) = [] then None
                            else last (args_MasterKey (cs @ [CallSetKeyMaterial bytes]))),
             KeyAltNames = (if args_KeyAltNames (cs @ [CallSetKeyMaterial bytes]) = [] then None
                            else last (args_KeyAltNames (cs @ [CallSetKeyMaterial bytes]))),
             KeyMaterial = bytes\<rparr>"
  have ap: "apply_deferred (elems (Opts b')) zero_DataKeyOptions = Inr ?r"
    unfolding ops apply_deferred_calls args_KeyMaterial_snoc
    by (simp add: zero_DataKeyOptions_def)
  have "KeyMaterial ?r = bytes"
    by simp
  with set lst ap show ?thesis
    by blast
qed


theorem keyMaterial_as_given_witness:
  "chain [] (fst (DataKey [])) (snd (DataKey []))
     = Inr (Address 0, [\<lparr>Opts = None\<rparr> :: string DataKeyOptionsBuilder]) \<and>
   (\<exists>h2 s r.
      SetKeyMaterial (Some []) (Address 0) [\<lparr>Opts = None\<rparr>] = Inr (Address 0, h2) \<and>
      List (Address 0) h2 = Inr (s, h2) \<and>
      apply_deferred (elems s) zero_DataKeyOptions = Inr (r :: string DataKeyOptions) \<and>
      KeyMaterial r = Some []) \<and>
   (\<exists>h2 s r.
      SetKeyMaterial None (Address 0) [\<lparr>Opts = None\<rparr>] = Inr (Address 0, h2) \<and>
      List (Address 0) h2 = Inr (s, h2) \<and>
      apply_deferred (elems s) zero_DataKeyOptions = Inr (r :: string DataKeyOptions) \<and>
      KeyMaterial r = None)"
proof -
  have h: "chain [] (fst (DataKey [])) (snd (DataKey []))
     = Inr (Address 0, [\<lparr>Opts = None\<rparr> :: string DataKeyOptionsBuilder])"
    by (simp add: DataKey_def)
  from keyMaterial_as_given [OF h, of "Some []"] keyMaterial_as_given [OF h, of None]
  show ?thesis
    using h by blast
qed

text \<open>
  C7. For every builder state reached from \<^verbatim>\<open>DataKey()\<close> by a chain of setter
  calls, reading \<^verbatim>\<open>List()\<close> and applying the sequence to a fresh zero-valued
  options record, any number \<open>n\<close> of times in a row, succeeds every time with the same
  options record, the one fixed by the calls, and leaves the heap as it was:
  \<^verbatim>\<open>List()\<close> does not consume the builder, and no appended function fails.
\<close>

theorem repeated_application_reproduces:
  "\<exists>h1. chain cs (fst (DataKey h)) (snd (DataKey h)) = Inr (fst (DataKey h), h1) \<and>
     (\<forall>n. materialize_times n (fst (DataKey h)) h1 =
        Inr (replicate n
               (Inr \<lparr>MasterKey = (if args_MasterKey cs = [] then None
                                   else last (args_MasterKey cs)),
                     KeyAltNames = (if args_KeyAltNames cs = [] then None
                                    else last (args_KeyAltNames cs)),
                     KeyMaterial = (if args_KeyMaterial cs = [] then None
                                    else last (args_KeyMaterial cs))\<rparr>),
             h1))"
proof -
  obtain h1 where
    run: "chain cs (fst (DataKey h)) (snd (DataKey h)) = Inr (fst (DataKey h), h1)" and
    lst: "List (fst (DataKey h)) h1 = Inr (if cs = [] then None else Some (map deferred cs), h1)"
    using List_fresh_chain by blast
  let ?r = "\<lparr>MasterKey = (if args_MasterKey cs = [] then None else last (args_MasterKey cs)),
             KeyAltNames = (if args_KeyAltNames cs = [] then None else last (args_KeyAltNames cs)),
             KeyMaterial = (if args_KeyMaterial cs = [] then None else last (args_KeyMaterial cs))\<rparr>"
  have el: "elems (if cs = [] then None else Some (map deferred cs)) = map deferred cs"
    by (simp add: elems_simps)
  have ap: "apply_deferred (map deferred cs) zero_DataKeyOptions = Inr ?r"
    unfolding apply_deferred_calls by (simp add: zero_DataKeyOptions_def)
  have once: "materialize (fst (DataKey h)) h1 = Inr (Inr ?r, h1)"
    unfolding materialize_def lst using el ap by simp
  have "\<forall>n. materialize_times n (fst (DataKey h)) h1 = Inr (replicate n (Inr ?r), h1)"
    using materialize_times_stable [OF once] by blast
  with run show ?thesis
    by blast
qed

theorem repeated_application_reproduces_witness:
  "\<exists>h1. chain [CallSetMasterKey (Some ''arn''), CallSetKeyAltNames (Some [''altname1''])]
           (fst (DataKey ([] :: string heap))) (snd (DataKey ([] :: string heap)))
         = Inr (fst (DataKey ([] :: string heap)), h1) \<and>
        materialize_times 2 (fst (DataKey ([] :: string heap))) h1 =
          Inr ([Inr \<lparr>MasterKey = Some ''arn'', KeyAltNames = Some [''altname1''],
                      KeyMaterial = None\<rparr>,
                Inr \<lparr>MasterKey = Some ''arn'', KeyAltNames = Some [''altname1''],
                      KeyMaterial = None\<rparr>], h1)"
proof -
  from repeated_application_reproduces
    [of "[CallSetMasterKey (Some ''arn''), CallSetKeyAltNames (Some [''altname1''])]"
        "[] :: string heap"]
  obtain h1 where
    run: "chain [CallSetMasterKey (Some ''arn''), CallSetKeyAltNames (Some [''altname1''])]
           (fst (DataKey ([] :: string heap))) (snd (DataKey ([] :: string heap)))
         = Inr (fst (DataKey ([] :: string heap)), h1)" and
    rep: "\<forall>n. materialize_times n (fst (DataKey ([] :: string heap))) h1 =
        Inr (replicate n
               (Inr \<lparr>MasterKey = Some ''arn'', KeyAltNames = Some [''altname1''],
                     KeyMaterial = None\<rparr>), h1)"
    by auto
  from rep have "materialize_times 2 (fst (DataKey ([] :: string heap))) h1 =
        Inr (replicate 2
               (Inr \<lparr>MasterKey = Some ''arn'', KeyAltNames = Some [''altname1''],
                     KeyMaterial = None\<rparr>), h1)"
    by (rule spec)
  then have "materialize_times 2 (fst (DataKey ([] :: string heap))) h1 =
          Inr ([Inr \<lparr>MasterKey = Some ''arn'', KeyAltNames = Some [''altname1''],
                      KeyMaterial = None\<rparr>,
                Inr \<lparr>MasterKey = Some ''arn'', KeyAltNames = Some [''altname1''],
                      KeyMaterial = None\<rparr>], h1)"
    by (simp only: numeral_2_eq_2 replicate.simps)
  with run show ?thesis
    by blast
qed

text \<open>
  C8. On every builder, each setter returns the pointer it was called on, so the chain
  \<^verbatim>\<open>b.SetMasterKey(x).SetKeyAltNames(y)\<close> returns \<^verbatim>\<open>b\<close>, and so does every
  longer chain of setter calls.
\<close>

theorem setters_return_receiver:
  assumes "load h dk = Inr b"
  shows "(\<exists>h'. SetMasterKey x dk h = Inr (dk, h')) \<and>
         (\<exists>h'. SetKeyAltNames y dk h = Inr (dk, h')) \<and>
         (\<exists>h'. SetKeyMaterial z dk h = Inr (dk, h')) \<and>
         (\<exists>h'. (case SetMasterKey x dk h of
                  Inl p \<Rightarrow> Inl p
                | Inr (dk', h1) \<Rightarrow> SetKeyAltNames y dk' h1) = Inr (dk, h')) \<and>
         (\<exists>h'. chain cs dk h = Inr (dk, h'))"
proof (intro conjI)
  show "\<exists>h'. SetMasterKey x dk h = Inr (dk, h')"
    using assms by (simp add: SetMasterKey_def)
  show "\<exists>h'. SetKeyAltNames y dk h = Inr (dk, h')"
    using assms by (simp add: SetKeyAltNames_def)
  show "\<exists>h'. SetKeyMaterial z dk h = Inr (dk, h')"
    using assms by (simp add: SetKeyMaterial_def)
  show "\<exists>h'. (case SetMasterKey x dk h of
                  Inl p \<Rightarrow> Inl p
                | Inr (dk', h1) \<Rightarrow> SetKeyAltNames y dk' h1) = Inr (dk, h')"
    using chain_effect [OF assms, of "[CallSetMasterKey x, CallSetKeyAltNames y]"]
    by (auto split: sum.splits)
  show "\<exists>h'. chain cs dk h = Inr (dk, h')"
    using chain_effect [OF assms, of cs] by blast
qed

theorem setters_return_receiver_witness:
  "load [\<lparr>Opts = None\<rparr>] (Address 0) = Inr (\<lparr>Opts = None\<rparr> :: string DataKeyOptionsBuilder) \<and>
   (\<exists>h'. (case SetMasterKey (Some ''x'') (Address 0) [\<lparr>Opts = None\<rparr>] of
            Inl p \<Rightarrow> Inl p
          | Inr (dk', h1) \<Rightarrow> SetKeyAltNames (Some [''y'']) dk' h1) = Inr (Address 0, h'))"
proof -
  have h: "load [\<lparr>Opts = None\<rparr>] (Address 0) = Inr (\<lparr>Opts = None\<rparr> :: string DataKeyOptionsBuilder)"
    by (simp add: load_def)
  from setters_return_receiver [OF h, where x = "Some ''x''" and y = "Some [''y'']"]
  show ?thesis
    using h by blast
qed

text \<open>
  C9. On every builder, the function a setter appends assigns its own field and leaves
  the other two fields of the options record as they were: the function of
  \<^verbatim>\<open>SetMasterKey\<close> keeps \<^verbatim>\<open>KeyAltNames\<close> and \<^verbatim>\<open>KeyMaterial\<close>, the function
  of \<^verbatim>\<open>SetKeyAltNames\<close> keeps \<^verbatim>\<open>MasterKey\<close> and \<^verbatim>\<open>KeyMaterial\<close>, the
  function of \<^verbatim>\<open>SetKeyMaterial\<close> keeps \<^verbatim>\<open>MasterKey\<close> and \<^verbatim>\<open>KeyAltNames\<close>.
\<close>

theorem setter_funcs_frame:
  assumes "load h dk = Inr b"
  shows "(\<exists>h' b'. SetMasterKey masterKey dk h = Inr (dk, h') \<and> load h' dk = Inr b' \<and>
            butlast (elems (Opts b')) = elems (Opts b) \<and>
            elems (Opts b') \<noteq> [] \<and>
            MasterKey (fst (last (elems (Opts b')) opts)) = masterKey \<and>
            KeyAltNames (fst (last (elems (Opts b')) opts)) = KeyAltNames opts \<and>
            KeyMaterial (fst (last (elems (Opts b')) opts)) = KeyMaterial opts) \<and>
         (\<exists>h' b'. SetKeyAltNames keyAltNames dk h = Inr (dk, h') \<and> load h' dk = Inr b' \<and>
            butlast (elems (Opts b')) = elems (Opts b) \<and>
            elems (Opts b') \<noteq> [] \<and>
            KeyAltNames (fst (last (elems (Opts b')) opts)) = keyAltNames \<and>
            MasterKey (fst (last (elems (Opts b')) opts)) = MasterKey opts \<and>
            KeyMaterial (fst (last (elems (Opts b')) opts)) = KeyMaterial opts) \<and>
         (\<exists>h' b'. SetKeyMaterial keyMaterial dk h = Inr (dk, h') \<and> load h' dk = Inr b' \<and>
            butlast (elems (Opts b')) = elems (Opts b) \<and>
            elems (Opts b') \<noteq> [] \<and>
            KeyMaterial (fst (last (elems (Opts b')) opts)) = keyMaterial \<and>
            MasterKey (fst (last (elems (Opts b')) opts)) = MasterKey opts \<and>
            KeyAltNames (fst (last (elems (Opts b')) opts)) = KeyAltNames opts)"
proof (intro conjI)
  from setter_appends [OF assms, of "CallSetMasterKey masterKey"]
  show "\<exists>h' b'. SetMasterKey masterKey dk h = Inr (dk, h') \<and> load h' dk = Inr b' \<and>
            butlast (elems (Opts b')) = elems (Opts b) \<and>
            elems (Opts b') \<noteq> [] \<and>
            MasterKey (fst (last (elems (Opts b')) opts)) = masterKey \<and>
            KeyAltNames (fst (last (elems (Opts b')) opts)) = KeyAltNames opts \<and>
            KeyMaterial (fst (last (elems (Opts b')) opts)) = KeyMaterial opts"
    by (auto simp: SetMasterKey_func_def)
next
  from setter_appends [OF assms, of "CallSetKeyAltNames keyAltNames"]
  show "\<exists>h' b'. SetKeyAltNames keyAltNames dk h = Inr (dk, h') \<and> load h' dk = Inr b' \<and>
            butlast (elems (Opts b')) = elems (Opts b) \<and>
            elems (Opts b') \<noteq> [] \<and>
            KeyAltNames (fst (last (elems (Opts b')) opts)) = keyAltNames \<and>
            MasterKey (fst (last (elems (Opts b')) opts)) = MasterKey opts \<and>
            KeyMaterial (fst (last (elems (Opts b')) opts)) = KeyMaterial opts"
    by (auto simp: SetKeyAltNames_func_def)
next
  from setter_appends [OF assms, of "CallSetKeyMaterial keyMaterial"]
  show "\<exists>h' b'. SetKeyMaterial keyMaterial dk h = Inr (dk, h') \<and> load h' dk = Inr b' \<and>
            butlast (elems (Opts b')) = elems (Opts b) \<and>
            elems (Opts b') \<noteq> [] \<and>
            KeyMaterial (fst (last (elems (Opts b')) opts)) = keyMaterial \<and>
            MasterKey (fst (last (elems (Opts b')) opts)) = MasterKey opts \<and>
            KeyAltNames (fst (last (elems (Opts b')) opts)) = KeyAltNames opts"
    by (auto simp: SetKeyMaterial_func_def)
qed

theorem setter_funcs_frame_witness:
  "load [\<lparr>Opts = None\<rparr>] (Address 0) = Inr (\<lparr>Opts = None\<rparr> :: string DataKeyOptionsBuilder) \<and>
   (\<exists>h' b'. SetMasterKey (Some ''new'') (Address 0) [\<lparr>Opts = None\<rparr>] = Inr (Address 0, h') \<and>
      load h' (Address 0) = Inr b' \<and>
      MasterKey (fst (last (elems (Opts b'))
          \<lparr>MasterKey = Some ''old'', KeyAltNames = Some [''n''], KeyMaterial = Some [7]\<rparr>))
        = Some ''new'' \<and>
      KeyAltNames (fst (last (elems (Opts b'))
          \<lparr>MasterKey = Some ''old'', KeyAltNames = Some [''n''], KeyMaterial = Some [7]\<rparr>))
        = Some [''n''] \<and>
      KeyMaterial (fst (last (elems (Opts b'))
          \<lparr>MasterKey = Some ''old'', KeyAltNames = Some [''n''], KeyMaterial = Some [7]\<rparr>))
        = Some [7])"
proof -
  have h: "load [\<lparr>Opts = None\<rparr>] (Address 0) = Inr (\<lparr>Opts = None\<rparr> :: string DataKeyOptionsBuilder)"
    by (simp add: load_def)
  have fields:
    "KeyAltNames \<lparr>MasterKey = Some ''old'', KeyAltNames = Some [''n''], KeyMaterial = Some [7]\<rparr>
       = Some [''n'']"
    "KeyMaterial \<lparr>MasterKey = Some ''old'', KeyAltNames = Some [''n''], KeyMaterial = Some [7]\<rparr>
       = Some [7]"
    by simp_all
  from setter_funcs_frame [OF h, where masterKey = "Some ''new''"
      and opts = "\<lparr>MasterKey = Some ''old'', KeyAltNames = Some [''n''], KeyMaterial = Some [7]\<rparr>",
      THEN conjunct1]
  show ?thesis
    unfolding fields using h by blast
qed

text \<open>
  C10. Two setter calls on different fields commute: on a builder obtained from
  \<^verbatim>\<open>DataKey()\<close>, either call order, followed by the application to the zero-valued
  options record, succeeds with the same options record, the one holding both values.
\<close>

theorem distinct_fields_commute:
  "configure [CallSetMasterKey x, CallSetKeyAltNames y] h =
     configure [CallSetKeyAltNames y, CallSetMasterKey x] h \<and>
   configure [CallSetMasterKey x, CallSetKeyAltNames y] h =
     Inr (Inr \<lparr>MasterKey = x, KeyAltNames = y, KeyMaterial = None\<rparr>) \<and>
   configure [CallSetMasterKey x, CallSetKeyMaterial z] h =
     configure [CallSetKeyMaterial z, CallSetMasterKey x] h \<and>
   configure [CallSetMasterKey x, CallSetKeyMaterial z] h =
     Inr (Inr \<lparr>MasterKey = x, KeyAltNames = None, KeyMaterial = z\<rparr>) \<and>
   configure [CallSetKeyAltNames y, CallSetKeyMaterial z] h =
     configure [CallSetKeyMaterial z, CallSetKeyAltNames y] h \<and>
   configure [CallSetKeyAltNames y, CallSetKeyMaterial z] h =
     Inr (Inr \<lparr>MasterKey = None, KeyAltNames = y, KeyMaterial = z\<rparr>)"
  unfolding configure_calls by simp

end
